theory Spec2Isabelle
  imports Complex_Main "HOL-Library.AList"
begin

section \<open>The table store of \<open>fastapi_receiver.py\<close>\<close>

text \<open>
  The receiver keeps, per table, a colour name and the time at which the table turned
  red. Both live in Python dictionaries, which keep their keys in insertion order; the
  order is visible in \<open>_red_durations_locked\<close>, whose sort is stable. A dictionary is
  therefore an association list with distinct keys: \<open>AList.update\<close> overwrites the value
  of a present key in place and appends an absent key at the end, as \<open>d[k] = v\<close> does.

  Times are the floats of \<open>time.time()\<close>, read here as real numbers; every call of
  \<open>time.time()\<close> is a parameter of the operation that makes it.
\<close>

datatype error = ValueError string | RuntimeError string | KeyError string

type_synonym 'v pydict = "(int \<times> 'v) list"

record table_state =
  range_start :: int
  range_end :: int
  colors :: "string pydict"
  red_started :: "real option pydict"

text \<open>\<open>d.get(k)\<close> for a dictionary of optional values: None for an absent key.\<close>

definition dict_get :: "'v option pydict \<Rightarrow> int \<Rightarrow> 'v option" where
  "dict_get d k = (case map_of d k of None \<Rightarrow> None | Some v \<Rightarrow> v)"

text \<open>Python's truth value of an optional float: None and 0.0 are false.\<close>

definition truthy :: "real option \<Rightarrow> bool" where
  "truthy v = (case v of None \<Rightarrow> False | Some t \<Rightarrow> t \<noteq> 0)"

text \<open>\<open>int(x)\<close> on a float truncates towards zero.\<close>

definition int_of_float :: "real \<Rightarrow> int" where
  "int_of_float x = (if 0 \<le> x then \<lfloor>x\<rfloor> else \<lceil>x\<rceil>)"

text \<open>\<open>xs[:limit]\<close>: a negative limit counts from the end.\<close>

definition slice_to :: "int \<Rightarrow> 'a list \<Rightarrow> 'a list" where
  "slice_to limit xs =
     (if 0 \<le> limit then take (nat limit) xs else take (length xs - nat (- limit)) xs)"

text \<open>\<open>TableState.__init__\<close>: every table of \<open>range(start, end + 1)\<close> green, not red.\<close>

definition TableState :: "int \<Rightarrow> int \<Rightarrow> table_state" where
  "TableState start end' =
     \<lparr>range_start = start, range_end = end',
      colors = map (\<lambda>table_id. (table_id, ''green'')) [start..end'],
      red_started = map (\<lambda>table_id. (table_id, None)) [start..end']\<rparr>"

type_synonym duration = "int \<times> int"

text \<open>
  \<open>_counts_locked\<close>, \<open>_range_locked\<close>, \<open>_red_durations_locked\<close> and
  \<open>_snapshot_locked\<close>. A duration entry \<open>{"table": t, "seconds": n}\<close> is the pair
  \<open>(t, n)\<close>. \<open>list.sort(key, reverse=True)\<close> is stable: entries of equal key keep
  their order, as \<open>sort_key\<close> on the negated key does.
\<close>

definition counts_locked :: "table_state \<Rightarrow> (string \<times> nat) list" where
  "counts_locked s =
     [(''green'', count_list (map snd (colors s)) ''green''),
      (''orange'', count_list (map snd (colors s)) ''orange''),
      (''red'', count_list (map snd (colors s)) ''red'')]"

definition range_locked :: "table_state \<Rightarrow> (string \<times> int) list" where
  "range_locked s = [(''start'', range_start s), (''end'', range_end s)]"

definition durations :: "table_state \<Rightarrow> real \<Rightarrow> duration list" where
  "durations s now =
     concat (map (\<lambda>(table_id, started).
                    (case started of
                       None \<Rightarrow> []
                     | Some t \<Rightarrow> if t \<noteq> 0 then [(table_id, int_of_float (now - t))] else []))
                 (red_started s))"

definition red_durations_locked :: "table_state \<Rightarrow> real \<Rightarrow> int \<Rightarrow> duration list" where
  "red_durations_locked s now limit =
     slice_to limit (sort_key (\<lambda>entry. - snd entry) (durations s now))"

datatype payload =
  Table_update "int \<times> string" "(string \<times> nat) list" "(string \<times> int) list" "duration list"
| Snapshot "(int \<times> string) list" "(string \<times> nat) list" "(string \<times> int) list" "duration list"

definition snapshot_locked :: "table_state \<Rightarrow> real \<Rightarrow> payload" where
  "snapshot_locked s now =
     Snapshot (sort_key fst (colors s)) (counts_locked s) (range_locked s)
              (red_durations_locked s now 10)"

text \<open>
  \<open>update_table\<close>. \<open>now\<close> is the clock read when the table turns red, \<open>now'\<close> the
  clock read for the payload's red durations.
\<close>

definition update_table ::
  "table_state \<Rightarrow> int \<Rightarrow> string \<Rightarrow> real \<Rightarrow> real \<Rightarrow> table_state \<times> payload" where
  "update_table s table color now now' =
     (let s1 = (if table \<notin> fst ` set (colors s)
                then s\<lparr>colors := AList.update table ''green'' (colors s),
                       red_started := AList.update table None (red_started s)\<rparr>
                else s);
          s2 = s1\<lparr>colors := AList.update table color (colors s1)\<rparr>;
          s3 = (if color = ''red''
                then (if \<not> truthy (dict_get (red_started s2) table)
                      then s2\<lparr>red_started := AList.update table (Some now) (red_started s2)\<rparr>
                      else s2)
                else s2\<lparr>red_started := AList.update table None (red_started s2)\<rparr>)
      in (s3, Table_update (table, color) (counts_locked s3) (range_locked s3)
                (red_durations_locked s3 now' 10)))"

text \<open>\<open>reset_all\<close>: the loop over the keys of \<open>_colors\<close>.\<close>

definition reset_table :: "int \<Rightarrow> table_state \<Rightarrow> table_state" where
  "reset_table table s =
     s\<lparr>colors := AList.update table ''green'' (colors s),
       red_started := AList.update table None (red_started s)\<rparr>"

definition reset_all :: "table_state \<Rightarrow> real \<Rightarrow> table_state \<times> payload" where
  "reset_all s now =
     (let s' = fold reset_table (map fst (colors s)) s in (s', snapshot_locked s' now))"

text \<open>
  \<open>configure_range\<close> raises \<open>ValueError\<close> before it touches the store; the state
  returned with the error is the state it was given.
\<close>

definition configure_range ::
  "table_state \<Rightarrow> int \<Rightarrow> int \<Rightarrow> real \<Rightarrow> table_state \<times> (error + payload)" where
  "configure_range s start end' now =
     (if start \<le> 0 \<or> end' < start then (s, Inl (ValueError ''Invalid table range''))
      else (let s' = s\<lparr>range_start := start, range_end := end',
                        colors := map (\<lambda>table_id. (table_id, ''green'')) [start..end'],
                        red_started := map (\<lambda>table_id. (table_id, None)) [start..end']\<rparr>
            in (s', Inr (snapshot_locked s' now))))"

text \<open>Sequences of store operations, each with the clock readings it makes.\<close>

datatype store_op =
  Update int string real real
| ResetAll real
| ConfigureRange int int real

fun apply_op :: "table_state \<Rightarrow> store_op \<Rightarrow> table_state" where
  "apply_op s (Update table color now now') = fst (update_table s table color now now')"
| "apply_op s (ResetAll now) = fst (reset_all s now)"
| "apply_op s (ConfigureRange start end' now) = fst (configure_range s start end' now)"

fun run_ops :: "table_state \<Rightarrow> store_op list \<Rightarrow> table_state" where
  "run_ops s [] = s"
| "run_ops s (x # xs) = run_ops (apply_op s x) xs"

text \<open>The entity ids of the store, an entity's colour and its \<open>redSince\<close>.\<close>

definition ids :: "table_state \<Rightarrow> int set" where
  "ids s = fst ` set (colors s)"

definition color_of :: "table_state \<Rightarrow> int \<Rightarrow> string option" where
  "color_of s table = map_of (colors s) table"

definition red_since :: "table_state \<Rightarrow> int \<Rightarrow> real option" where
  "red_since s table = dict_get (red_started s) table"

text \<open>
  Invariant I2, the clock assumption under which a stored start time is never the float
  0.0 (which Python reads as false), and the ids that \<open>update_table\<close> has been given
  since the range was last configured.
\<close>

definition I2 :: "table_state \<Rightarrow> bool" where
  "I2 s = (\<forall>table \<in> ids s. (red_since s table \<noteq> None) = (color_of s table = Some ''red''))"

definition stamps_nonzero :: "table_state \<Rightarrow> bool" where
  "stamps_nonzero s = (\<forall>table. red_since s table \<noteq> Some 0)"

fun clock_nonzero :: "store_op \<Rightarrow> bool" where
  "clock_nonzero (Update table color now now') = (now \<noteq> 0)"
| "clock_nonzero (ResetAll now) = True"
| "clock_nonzero (ConfigureRange start end' now) = True"

fun adopted :: "int set \<Rightarrow> store_op list \<Rightarrow> int set" where
  "adopted A [] = A"
| "adopted A (Update table color now now' # xs) = adopted (insert table A) xs"
| "adopted A (ResetAll now # xs) = adopted A xs"
| "adopted A (ConfigureRange start end' now # xs) =
     adopted (if start \<le> 0 \<or> end' < start then A else {}) xs"

text \<open>
  The order the specification gives for the red durations: more seconds first, and among
  equal seconds the smaller id first.
\<close>

definition seconds_then_id :: "duration \<Rightarrow> duration \<Rightarrow> bool" where
  "seconds_then_id x y = (snd y < snd x \<or> (snd x = snd y \<and> fst x < fst y))"

text \<open>
  The key order of a store whose two dictionaries hold exactly the configured range, in
  ascending order, and the operation sequences whose updates stay within the range that
  is configured when they run.
\<close>

definition keys_in_order :: "table_state \<Rightarrow> bool" where
  "keys_in_order s =
     (map fst (colors s) = [range_start s..range_end s] \<and>
      map fst (red_started s) = [range_start s..range_end s])"

fun updates_in_range :: "table_state \<Rightarrow> store_op list \<Rightarrow> bool" where
  "updates_in_range s [] = True"
| "updates_in_range s (x # xs) =
     ((case x of
         Update table color now now' \<Rightarrow> range_start s \<le> table \<and> table \<le> range_end s
       | _ \<Rightarrow> True) \<and>
      updates_in_range (apply_op s x) xs)"

section \<open>The websocket manager\<close>

text \<open>
  \<open>WebsocketManager.broadcast\<close>. A connection is a handle of any type; \<open>send_ok c\<close>
  tells whether \<open>c.send_json(message)\<close> returns (True) or raises (False). The first loop
  runs over a copy of the connection list and collects the connections whose send raised;
  the second removes each of them with \<open>list.remove\<close>, which deletes the first
  occurrence. The result is the new connection list and the connections that received
  the message, in order.
\<close>

fun send_all :: "('c \<Rightarrow> bool) \<Rightarrow> 'c list \<Rightarrow> 'c list \<Rightarrow> 'c list \<Rightarrow> 'c list \<times> 'c list" where
  "send_all send_ok [] stale received = (stale, received)"
| "send_all send_ok (connection # rest) stale received =
     (if send_ok connection then send_all send_ok rest stale (received @ [connection])
      else send_all send_ok rest (stale @ [connection]) received)"

definition broadcast :: "('c \<Rightarrow> bool) \<Rightarrow> 'c list \<Rightarrow> 'c list \<times> 'c list" where
  "broadcast send_ok connections =
     (let (stale, received) = send_all send_ok connections [] []
      in (fold remove1 stale connections, received))"

section \<open>The serial receiver\<close>

definition COLOR_CODE :: "int \<Rightarrow> string option" where
  "COLOR_CODE = [0 \<mapsto> ''green'', 1 \<mapsto> ''orange'', 2 \<mapsto> ''red'']"

definition COLOR_NAME_TO_ID :: "string \<Rightarrow> int option" where
  "COLOR_NAME_TO_ID = [''green'' \<mapsto> 0, ''orange'' \<mapsto> 1, ''red'' \<mapsto> 2]"

text \<open>
  Strings are lists of 8-bit characters, so the text model is exact for ASCII lines.
  \<open>str.strip()\<close> and \<open>int()\<close> drop the same leading and trailing white space; \<open>int()\<close>
  then reads an optional sign and decimal digits, with single underscores allowed between
  digits, and raises \<open>ValueError\<close> on anything else.
\<close>

definition is_space :: "char \<Rightarrow> bool" where
  "is_space c = (of_char c \<in> {9, 10, 11, 12, 13, 28, 29, 30, 31, 32 :: nat})"

definition strip :: "string \<Rightarrow> string" where
  "strip s = rev (dropWhile is_space (rev (dropWhile is_space s)))"

definition is_digit :: "char \<Rightarrow> bool" where
  "is_digit c = (48 \<le> (of_char c :: nat) \<and> (of_char c :: nat) \<le> 57)"

definition digit_val :: "char \<Rightarrow> nat" where
  "digit_val c = of_char c - 48"

fun digits :: "string \<Rightarrow> nat \<Rightarrow> nat option" where
  "digits [] acc = Some acc"
| "digits (c # cs) acc =
     (if is_digit c then digits cs (10 * acc + digit_val c)
      else if c = CHR ''_'' then
        (case cs of
           [] \<Rightarrow> None
         | d # ds \<Rightarrow> if is_digit d then digits ds (10 * acc + digit_val d) else None)
      else None)"

definition decimal :: "string \<Rightarrow> nat option" where
  "decimal s =
     (case s of
        [] \<Rightarrow> None
      | c # cs \<Rightarrow> if is_digit c then digits cs (digit_val c) else None)"

definition py_int :: "string \<Rightarrow> error + int" where
  "py_int s =
     (let t = strip s;
          r = (case t of
                 [] \<Rightarrow> None
               | c # cs \<Rightarrow>
                   if c = CHR ''-'' then map_option (\<lambda>n. - int n) (decimal cs)
                   else if c = CHR ''+'' then map_option int (decimal cs)
                   else map_option int (decimal t))
      in case r of
           None \<Rightarrow> Inl (ValueError ''invalid literal for int() with base 10'')
         | Some n \<Rightarrow> Inr n)"

text \<open>\<open>str.split(",")\<close>: the fields between the commas; an empty string has one empty field.\<close>

fun split :: "char \<Rightarrow> string \<Rightarrow> string list" where
  "split sep [] = [[]]"
| "split sep (c # cs) =
     (if c = sep then [] # split sep cs
      else (case split sep cs of
              [] \<Rightarrow> [[c]]
            | part # parts \<Rightarrow> (c # part) # parts))"

text \<open>
  \<open>_parse_message\<close>. The \<open>try\<close> block catches \<open>ValueError\<close> only; any other error of
  \<open>int()\<close> would leave the function, so the result is an error or the optional pair.
\<close>

definition parse_message :: "string \<Rightarrow> error + (int \<times> string) option" where
  "parse_message raw =
     (case split CHR '','' raw of
        [role, table_str, color_str] \<Rightarrow>
          if role = ''RT'' then Inr None
          else (case py_int table_str of
                  Inl (ValueError m) \<Rightarrow> Inr None
                | Inl e \<Rightarrow> Inl e
                | Inr table \<Rightarrow>
                    (case py_int color_str of
                       Inl (ValueError m) \<Rightarrow> Inr None
                     | Inl e \<Rightarrow> Inl e
                     | Inr color_index \<Rightarrow>
                         (case COLOR_CODE color_index of
                            None \<Rightarrow> Inr None
                          | Some color \<Rightarrow> if color = [] then Inr None else Inr (Some (table, color)))))
      | _ \<Rightarrow> Inr None)"

text \<open>
  The serial connection records what was written to it. The receiver holds the table
  store, whether an event loop is bound (\<open>_loop\<close>), and the connection if there is one.
\<close>

record serial =
  is_open :: bool
  written :: "string list"

record serial_receiver =
  state :: table_state
  loop :: bool
  connection :: "serial option"

text \<open>\<open>str(n)\<close> for an integer, as the f-string formats it.\<close>

fun str_nat :: "nat \<Rightarrow> string" where
  "str_nat n =
     (if n < 10 then [char_of (48 + n)] else str_nat (n div 10) @ [char_of (48 + n mod 10)])"

definition str_int :: "int \<Rightarrow> string" where
  "str_int i = (if i < 0 then CHR ''-'' # str_nat (nat (- i)) else str_nat (nat i))"

text \<open>
  \<open>send_teacher_command\<close>: the lookup of the colour id comes first and raises
  \<open>KeyError\<close> for an unknown colour name.
\<close>

definition send_teacher_command ::
  "serial_receiver \<Rightarrow> int \<Rightarrow> string \<Rightarrow> serial_receiver \<times> (error + unit)" where
  "send_teacher_command r table color =
     (case COLOR_NAME_TO_ID color of
        None \<Rightarrow> (r, Inl (KeyError color))
      | Some color_id \<Rightarrow>
          let message = ''T,'' @ str_int table @ '','' @ str_int color_id @ [CHR 0x0A]
          in (case connection r of
                None \<Rightarrow> (r, Inl (RuntimeError ''Serial link is not connected.''))
              | Some c \<Rightarrow>
                  if \<not> is_open c then (r, Inl (RuntimeError ''Serial link is not connected.''))
                  else (r\<lparr>connection := Some (c\<lparr>written := written c @ [message]\<rparr>)\<rparr>, Inr ())))"

text \<open>
  One pass of the body of \<open>_read_loop\<close> on a line that was read and decoded: the
  receiver afterwards and the payload handed to \<open>broadcast\<close>, if any. An error is an
  exception that leaves the loop.
\<close>

definition read_line ::
  "serial_receiver \<Rightarrow> string \<Rightarrow> real \<Rightarrow> real \<Rightarrow> error + serial_receiver \<times> payload option" where
  "read_line r line now now' =
     (let raw = strip line
      in if raw = [] then Inr (r, None)
         else (case parse_message raw of
                 Inl e \<Rightarrow> Inl e
               | Inr None \<Rightarrow> Inr (r, None)
               | Inr (Some (table, color)) \<Rightarrow>
                   let (s', update) = update_table (state r) table color now now'
                   in Inr (r\<lparr>state := s'\<rparr>, if loop r then Some update else None)))"

text \<open>
  \<open>_read_loop\<close> over the reads of one connection: a line with its clock readings, or a
  read that raised, which ends the loop. The end of the list is the stop event. The
  result is the receiver and the payloads handed to \<open>broadcast\<close>, in order.
\<close>

datatype read_event = Line string real real | ReadFailure

fun read_loop ::
  "serial_receiver \<Rightarrow> read_event list \<Rightarrow> payload list \<Rightarrow> error + serial_receiver \<times> payload list" where
  "read_loop r [] sent = Inr (r, sent)"
| "read_loop r (ReadFailure # events) sent = Inr (r, sent)"
| "read_loop r (Line line now now' # events) sent =
     (case read_line r line now now' of
        Inl e \<Rightarrow> Inl e
      | Inr (r', None) \<Rightarrow> read_loop r' events sent
      | Inr (r', Some update) \<Rightarrow> read_loop r' events (sent @ [update]))"


section \<open>Properties of the table store\<close>

lemma colors_update_table:
  "colors (fst (update_table s table color now now')) = AList.update table color (colors s)"
  by (simp add: update_table_def Let_def)

lemma range_update_table:
  "range_start (fst (update_table s table color now now')) = range_start s \<and>
   range_end (fst (update_table s table color now now')) = range_end s"
  by (simp add: update_table_def Let_def)

lemma ids_update_table: "ids (fst (update_table s table color now now')) = insert table (ids s)"
  by (simp add: ids_def colors_update_table dom_update)

lemma color_of_update_table:
  "color_of (fst (update_table s table color now now')) t =
     (if t = table then Some color else color_of s t)"
  by (simp add: color_of_def colors_update_table update_conv')

lemma dict_get_update: "dict_get (AList.update k v d) k' = (if k' = k then v else dict_get d k')"
  by (simp add: dict_get_def update_conv')

lemma red_since_update_table:
  "red_since (fst (update_table s table color now now')) t =
     (if t \<noteq> table then red_since s t
      else if color \<noteq> ''red'' then None
      else if table \<in> ids s \<and> truthy (red_since s table) then red_since s table
      else Some now)"
  by (simp add: update_table_def Let_def red_since_def ids_def dict_get_update truthy_def)

lemma colors_fold_reset:
  "map_of (colors (fold reset_table ks s)) t =
     (if t \<in> set ks then Some ''green'' else map_of (colors s) t)"
  by (induction ks arbitrary: s) (auto simp: reset_table_def update_conv')

lemma red_started_fold_reset:
  "map_of (red_started (fold reset_table ks s)) t =
     (if t \<in> set ks then Some None else map_of (red_started s) t)"
  by (induction ks arbitrary: s) (auto simp: reset_table_def update_conv')

lemma keys_fold_reset:
  "fst ` set (colors (fold reset_table ks s)) = fst ` set (colors s) \<union> set ks"
  by (induction ks arbitrary: s) (auto simp: reset_table_def dom_update)

lemma range_fold_reset:
  "range_start (fold reset_table ks s) = range_start s \<and>
   range_end (fold reset_table ks s) = range_end s"
  by (induction ks arbitrary: s) (auto simp: reset_table_def)

lemma ids_reset_all: "ids (fst (reset_all s now)) = ids s"
  by (auto simp: reset_all_def Let_def ids_def keys_fold_reset)

lemma color_of_reset_all:
  "color_of (fst (reset_all s now)) t = (if t \<in> ids s then Some ''green'' else None)"
  by (auto simp: reset_all_def Let_def color_of_def ids_def colors_fold_reset map_of_eq_None_iff)

lemma red_since_reset_all:
  "t \<in> ids s \<Longrightarrow> red_since (fst (reset_all s now)) t = None"
  by (auto simp: reset_all_def Let_def red_since_def dict_get_def ids_def red_started_fold_reset)

lemma I2_TableState: "I2 (TableState a b)"
  by (auto simp: I2_def TableState_def ids_def red_since_def color_of_def dict_get_def map_of_map_restrict restrict_map_def split: option.splits)

lemma I2_update_table: "I2 s \<Longrightarrow> I2 (fst (update_table s table color now now'))"
  by (auto simp: I2_def ids_update_table color_of_update_table red_since_update_table truthy_def split: option.splits)

lemma I2_reset_all: "I2 s \<Longrightarrow> I2 (fst (reset_all s now))"
  by (simp add: I2_def ids_reset_all color_of_reset_all red_since_reset_all)

lemma I2_configure_range: "I2 s \<Longrightarrow> I2 (fst (configure_range s a b now))"
  by (auto simp: configure_range_def Let_def I2_def ids_def red_since_def color_of_def dict_get_def map_of_map_restrict restrict_map_def split: option.splits)

lemma I2_apply_op: "I2 s \<Longrightarrow> I2 (apply_op s x)"
  by (cases x) (simp_all add: I2_update_table I2_reset_all I2_configure_range)

lemma I2_run_ops: "I2 s \<Longrightarrow> I2 (run_ops s xs)"
  by (induction xs arbitrary: s) (simp_all add: I2_apply_op)

lemma ids_TableState: "ids (TableState a b) = {a..b}"
  by (simp add: ids_def TableState_def image_image)

lemma range_TableState: "range_start (TableState a b) = a \<and> range_end (TableState a b) = b"
  by (simp add: TableState_def)

lemma red_since_TableState: "red_since (TableState a b) t = None"
  by (auto simp: TableState_def red_since_def dict_get_def map_of_map_restrict restrict_map_def)

lemma red_since_configure_range:
  "red_since (fst (configure_range s a b now)) t = (if a \<le> 0 \<or> b < a then red_since s t else None)"
  by (auto simp: configure_range_def Let_def red_since_def dict_get_def map_of_map_restrict restrict_map_def)

lemma red_since_reset_all_cases:
  "red_since (fst (reset_all s now)) t = (if t \<in> ids s then None else red_since s t)"
  by (auto simp: reset_all_def Let_def red_since_def dict_get_def ids_def red_started_fold_reset)

lemma stamps_nonzero_apply_op:
  "stamps_nonzero s \<Longrightarrow> clock_nonzero x \<Longrightarrow> stamps_nonzero (apply_op s x)"
  by (cases x)
     (auto simp: stamps_nonzero_def red_since_update_table red_since_configure_range
                 red_since_reset_all_cases)

lemma stamps_nonzero_run_ops:
  "stamps_nonzero s \<Longrightarrow> list_all clock_nonzero xs \<Longrightarrow> stamps_nonzero (run_ops s xs)"
  by (induction xs arbitrary: s) (simp_all add: stamps_nonzero_apply_op)

text \<open>
  Claim C1. In a store that satisfies I2, \<open>update_table(table, "red")\<close> on a table that
  is not red sets its \<open>redSince\<close> to the clock reading of the call; on a table that is
  already red it leaves \<open>redSince\<close> as it was; and an update to any colour other than red
  clears \<open>redSince\<close>. The stored start time is tested for truth, so the second part
  assumes that the clock never read exactly 0.0 (\<open>stamps_nonzero\<close>, which
  \<open>stamps_nonzero_run_ops\<close> shows for every store built with such readings).
\<close>

theorem update_table_red_since:
  "(I2 s \<longrightarrow> color_of s table \<noteq> Some ''red'' \<longrightarrow>
      red_since (fst (update_table s table ''red'' now now')) table = Some now) \<and>
   (I2 s \<longrightarrow> stamps_nonzero s \<longrightarrow> color_of s table = Some ''red'' \<longrightarrow>
      red_since (fst (update_table s table ''red'' now now')) table = red_since s table) \<and>
   (color \<noteq> ''red'' \<longrightarrow>
      red_since (fst (update_table s table color now now')) table = None)"
proof (intro conjI impI)
  assume inv: "I2 s" and c: "color_of s table \<noteq> Some ''red''"
  have "table \<in> ids s \<Longrightarrow> red_since s table = None"
    using inv c by (auto simp: I2_def)
  then show "red_since (fst (update_table s table ''red'' now now')) table = Some now"
    by (auto simp: red_since_update_table truthy_def)
next
  assume inv: "I2 s" and nz: "stamps_nonzero s" and c: "color_of s table = Some ''red''"
  from c have mem: "table \<in> ids s"
    by (auto simp: color_of_def ids_def dest: map_of_SomeD intro: rev_image_eqI)
  with inv c have "red_since s table \<noteq> None"
    by (auto simp: I2_def)
  moreover from nz have "red_since s table \<noteq> Some 0"
    by (simp add: stamps_nonzero_def)
  ultimately have "truthy (red_since s table)"
    by (auto simp: truthy_def split: option.splits)
  with mem show "red_since (fst (update_table s table ''red'' now now')) table = red_since s table"
    by (simp add: red_since_update_table)
next
  assume "color \<noteq> ''red''"
  then show "red_since (fst (update_table s table color now now')) table = None"
    by (simp add: red_since_update_table)
qed

text \<open>
  Claim C2. Invariant I2 (for every entity of the store, \<open>redSince\<close> is set exactly when
  the colour is red) holds in the store that \<open>TableState\<close> constructs and is preserved
  by \<open>update_table\<close>, \<open>reset_all\<close> and \<open>configure_range\<close>.
\<close>

theorem I2_invariant:
  "I2 (TableState start end') \<and>
   (I2 s \<longrightarrow> I2 (fst (update_table s table color now now')) \<and>
            I2 (fst (reset_all s now)) \<and>
            I2 (fst (configure_range s a b now)))"
  by (simp add: I2_TableState I2_update_table I2_reset_all I2_configure_range)

theorem update_table_red_since_witness:
  "I2 (TableState 1 3) \<and> color_of (TableState 1 3) 2 \<noteq> Some ''red'' \<and>
   red_since (fst (update_table (TableState 1 3) 2 ''red'' 100 101)) 2 = Some 100 \<and>
   I2 (run_ops (TableState 1 3) [Update 2 ''red'' 100 101]) \<and>
   stamps_nonzero (run_ops (TableState 1 3) [Update 2 ''red'' 100 101]) \<and>
   color_of (run_ops (TableState 1 3) [Update 2 ''red'' 100 101]) 2 = Some ''red'' \<and>
   red_since (fst (update_table (run_ops (TableState 1 3) [Update 2 ''red'' 100 101]) 2 ''red'' 160 161)) 2
     = Some 100 \<and>
   ''green'' \<noteq> ''red'' \<and>
   red_since (fst (update_table (run_ops (TableState 1 3) [Update 2 ''red'' 100 101]) 2 ''green'' 170 171)) 2
     = None"
proof -
  let ?s0 = "TableState 1 3"
  let ?s1 = "run_ops ?s0 [Update 2 ''red'' 100 101]"
  have i0: "I2 ?s0" by (rule I2_TableState)
  have c0: "color_of ?s0 2 \<noteq> Some ''red''"
    by (simp add: color_of_def TableState_def upto.simps)
  have i1: "I2 ?s1" using i0 by (rule I2_run_ops)
  have "stamps_nonzero ?s0"
    by (simp add: stamps_nonzero_def red_since_TableState)
  then have n1: "stamps_nonzero ?s1"
    by (rule stamps_nonzero_run_ops) simp
  have c1: "color_of ?s1 2 = Some ''red''"
    by (simp add: color_of_update_table)
  have r1: "red_since ?s1 2 = Some 100"
    by (simp add: red_since_update_table red_since_TableState truthy_def)
  have g: "''green'' \<noteq> ''red''" by simp
  from update_table_red_since [of ?s0 2 100 101 "''green''"] i0 c0
  have a: "red_since (fst (update_table ?s0 2 ''red'' 100 101)) 2 = Some 100" by blast
  from update_table_red_since [of ?s1 2 160 161 "''green''"] i1 n1 c1 r1
  have b: "red_since (fst (update_table ?s1 2 ''red'' 160 161)) 2 = Some 100" by simp
  from update_table_red_since [of ?s1 2 170 171 "''green''"] g
  have c: "red_since (fst (update_table ?s1 2 ''green'' 170 171)) 2 = None" by blast
  from i0 c0 a i1 n1 c1 b g c show ?thesis by blast
qed

theorem I2_invariant_witness:
  "I2 (TableState 1 3) \<and>
   I2 (fst (update_table (TableState 1 3) 7 ''red'' 100 101)) \<and>
   I2 (fst (reset_all (TableState 1 3) 100)) \<and>
   I2 (fst (configure_range (TableState 1 3) 2 5 100)) \<and>
   ids (fst (update_table (TableState 1 3) 7 ''red'' 100 101)) = {1, 2, 3, 7} \<and>
   red_since (fst (update_table (TableState 1 3) 7 ''red'' 100 101)) 7 = Some 100 \<and>
   color_of (fst (update_table (TableState 1 3) 7 ''red'' 100 101)) 7 = Some ''red''"
proof -
  from I2_invariant [of 1 3 "TableState 1 3" 7 "''red''" 100 101 2 5]
  have "I2 (TableState 1 3) \<and>
        I2 (fst (update_table (TableState 1 3) 7 ''red'' 100 101)) \<and>
        I2 (fst (reset_all (TableState 1 3) 100)) \<and>
        I2 (fst (configure_range (TableState 1 3) 2 5 100))"
    by blast
  moreover have "ids (fst (update_table (TableState 1 3) 7 ''red'' 100 101)) = {1, 2, 3, 7}"
    by (auto simp: ids_update_table ids_TableState)
  moreover have "red_since (fst (update_table (TableState 1 3) 7 ''red'' 100 101)) 7 = Some 100"
    by (simp add: red_since_update_table red_since_TableState truthy_def)
  moreover have "color_of (fst (update_table (TableState 1 3) 7 ''red'' 100 101)) 7 = Some ''red''"
    by (simp add: color_of_update_table)
  ultimately show ?thesis by blast
qed

lemma ids_configure_range:
  "ids (fst (configure_range s a b now)) = (if a \<le> 0 \<or> b < a then ids s else {a..b})"
  by (simp add: configure_range_def Let_def ids_def image_image)

lemma range_reset_all:
  "range_start (fst (reset_all s now)) = range_start s \<and>
   range_end (fst (reset_all s now)) = range_end s"
  by (simp add: reset_all_def Let_def range_fold_reset)

lemma range_configure_range:
  "range_start (fst (configure_range s a b now)) = (if a \<le> 0 \<or> b < a then range_start s else a) \<and>
   range_end (fst (configure_range s a b now)) = (if a \<le> 0 \<or> b < a then range_end s else b)"
  by (simp add: configure_range_def Let_def)

lemma color_of_fresh: "map_of (map (\<lambda>t. (t, v)) [a..b]) t = (if t \<in> {a..b} then Some v else None)"
  by (auto simp: map_of_map_restrict restrict_map_def)

text \<open>
  Claim C4. \<open>configure_range\<close> fails exactly when \<open>start \<le> 0\<close> or \<open>end < start\<close>, with
  \<open>ValueError\<close> and the store unchanged; otherwise the store holds exactly the ids
  \<open>start..end\<close>, that is \<open>end - start + 1\<close> entities, all green, none with a
  \<open>redSince\<close>, and the range is the new one.
\<close>

theorem configure_range_InvalidRange:
  "isl (snd (configure_range s start end' now)) = (start \<le> 0 \<or> end' < start) \<and>
   (start \<le> 0 \<or> end' < start \<longrightarrow>
      configure_range s start end' now = (s, Inl (ValueError ''Invalid table range''))) \<and>
   (\<not> (start \<le> 0 \<or> end' < start) \<longrightarrow>
      map fst (colors (fst (configure_range s start end' now))) = [start..end'] \<and>
      map fst (red_started (fst (configure_range s start end' now))) = [start..end'] \<and>
      ids (fst (configure_range s start end' now)) = {start..end'} \<and>
      int (card (ids (fst (configure_range s start end' now)))) = end' - start + 1 \<and>
      (\<forall>table \<in> ids (fst (configure_range s start end' now)).
         color_of (fst (configure_range s start end' now)) table = Some ''green'' \<and>
         red_since (fst (configure_range s start end' now)) table = None) \<and>
      range_start (fst (configure_range s start end' now)) = start \<and>
      range_end (fst (configure_range s start end' now)) = end')"
proof (intro conjI impI)
  show "isl (snd (configure_range s start end' now)) = (start \<le> 0 \<or> end' < start)"
    by (simp add: configure_range_def Let_def)
next
  assume "start \<le> 0 \<or> end' < start"
  then show "configure_range s start end' now = (s, Inl (ValueError ''Invalid table range''))"
    by (simp add: configure_range_def)
next
  assume v: "\<not> (start \<le> 0 \<or> end' < start)"
  then show "map fst (colors (fst (configure_range s start end' now))) = [start..end']"
    by (simp add: configure_range_def Let_def comp_def)
  from v show "map fst (red_started (fst (configure_range s start end' now))) = [start..end']"
    by (simp add: configure_range_def Let_def comp_def)
  from v show i: "ids (fst (configure_range s start end' now)) = {start..end'}"
    by (simp add: ids_configure_range)
  from v show "int (card (ids (fst (configure_range s start end' now)))) = end' - start + 1"
    by (simp add: i)
  from v show "\<forall>table \<in> ids (fst (configure_range s start end' now)).
         color_of (fst (configure_range s start end' now)) table = Some ''green'' \<and>
         red_since (fst (configure_range s start end' now)) table = None"
    by (simp add: red_since_configure_range)
       (simp add: configure_range_def Let_def color_of_def ids_def color_of_fresh image_image)
  from v show "range_start (fst (configure_range s start end' now)) = start"
    by (simp add: range_configure_range)
  from v show "range_end (fst (configure_range s start end' now)) = end'"
    by (simp add: range_configure_range)
qed

theorem configure_range_InvalidRange_witness:
  "\<not> (2 \<le> (0::int) \<or> (4::int) < 2) \<and>
   ids (fst (configure_range (TableState 1 50) 2 4 100)) = {2, 3, 4} \<and>
   int (card (ids (fst (configure_range (TableState 1 50) 2 4 100)))) = 3 \<and>
   color_of (fst (configure_range (TableState 1 50) 2 4 100)) 3 = Some ''green'' \<and>
   red_since (fst (configure_range (TableState 1 50) 2 4 100)) 3 = None \<and>
   ((0::int) \<le> 0 \<or> (4::int) < 0) \<and>
   configure_range (TableState 1 50) 0 4 100 = (TableState 1 50, Inl (ValueError ''Invalid table range'')) \<and>
   configure_range (TableState 1 50) 5 4 100 = (TableState 1 50, Inl (ValueError ''Invalid table range''))"
proof -
  have v: "\<not> (2 \<le> (0::int) \<or> (4::int) < 2)" by simp
  have e: "{2..4} = {2, 3, 4::int}" by auto
  have m: "(3::int) \<in> {2..4}" by simp
  from configure_range_InvalidRange [of "TableState 1 50" 2 4 100] v e m
  have "ids (fst (configure_range (TableState 1 50) 2 4 100)) = {2, 3, 4} \<and>
   int (card (ids (fst (configure_range (TableState 1 50) 2 4 100)))) = 3 \<and>
   color_of (fst (configure_range (TableState 1 50) 2 4 100)) 3 = Some ''green'' \<and>
   red_since (fst (configure_range (TableState 1 50) 2 4 100)) 3 = None"
    by simp
  moreover from configure_range_InvalidRange [of "TableState 1 50" 0 4 100]
  have "configure_range (TableState 1 50) 0 4 100 = (TableState 1 50, Inl (ValueError ''Invalid table range''))"
    by simp
  moreover from configure_range_InvalidRange [of "TableState 1 50" 5 4 100]
  have "configure_range (TableState 1 50) 5 4 100 = (TableState 1 50, Inl (ValueError ''Invalid table range''))"
    by simp
  ultimately show ?thesis by simp
qed

lemma ids_range_apply_op:
  "ids s = {range_start s..range_end s} \<union> A \<Longrightarrow>
   ids (apply_op s x) = {range_start (apply_op s x)..range_end (apply_op s x)} \<union> adopted A [x]"
  by (cases x)
     (auto simp: ids_update_table range_update_table ids_reset_all range_reset_all
                 ids_configure_range range_configure_range)

lemma adopted_step: "adopted A (x # xs) = adopted (adopted A [x]) xs"
  by (cases x) simp_all

lemma ids_range_run_ops:
  "ids s = {range_start s..range_end s} \<union> A \<Longrightarrow>
   ids (run_ops s xs) = {range_start (run_ops s xs)..range_end (run_ops s xs)} \<union> adopted A xs"
proof (induction xs arbitrary: s A)
  case Nil
  then show ?case by simp
next
  case (Cons x xs)
  from ids_range_apply_op [OF Cons.prems, of x]
  have "ids (run_ops (apply_op s x) xs) =
          {range_start (run_ops (apply_op s x) xs)..range_end (run_ops (apply_op s x) xs)}
            \<union> adopted (adopted A [x]) xs"
    by (rule Cons.IH)
  then show ?case
    by (simp add: adopted_step [of A x xs])
qed

text \<open>
  Invariant I1 as stated, with updates outside the range allowed, fails: after
  \<open>update_table(99, "red")\<close> on the range 1..5 the store holds the id 99.
\<close>

theorem ids_exactly_range_counterexample:
  "ids (run_ops (TableState 1 5) [Update 99 ''red'' 100 101]) \<noteq>
     {range_start (run_ops (TableState 1 5) [Update 99 ''red'' 100 101])..
      range_end (run_ops (TableState 1 5) [Update 99 ''red'' 100 101])}"
proof -
  let ?s = "run_ops (TableState 1 5) [Update 99 ''red'' 100 101]"
  have "99 \<in> ids ?s"
    by (simp add: ids_update_table)
  moreover have "99 \<notin> {range_start ?s..range_end ?s}"
    by (simp add: range_update_table range_TableState)
  ultimately show ?thesis by blast
qed

text \<open>
  Claim C8, amended. After every sequence of store operations the ids of the store are
  those of the configured range together with the ids given to \<open>update_table\<close> since the
  range was last configured; they are exactly \<open>{start..end}\<close> when all of those ids lie
  in the range.
\<close>

theorem ids_range_and_adopted:
  "ids (run_ops (TableState start end') xs) =
     {range_start (run_ops (TableState start end') xs)..range_end (run_ops (TableState start end') xs)}
       \<union> adopted {} xs"
  by (rule ids_range_run_ops) (simp add: ids_TableState range_TableState)

theorem ids_range_and_adopted_witness:
  "ids (run_ops (TableState 1 3) [Update 9 ''red'' 100 101, ResetAll 102, Update 2 ''orange'' 103 104])
     = {1, 2, 3, 9} \<and>
   ids (run_ops (TableState 1 3) [Update 9 ''red'' 100 101, ConfigureRange 4 5 102]) = {4, 5}"
proof -
  have a: "{1..3} = {1, 2, 3::int}" and b: "{4..5} = {4, 5::int}" by auto
  from ids_range_and_adopted [of 1 3 "[Update 9 ''red'' 100 101, ResetAll 102, Update 2 ''orange'' 103 104]"]
  have "ids (run_ops (TableState 1 3) [Update 9 ''red'' 100 101, ResetAll 102, Update 2 ''orange'' 103 104])
     = {1, 2, 3, 9}"
    by (auto simp: range_update_table range_reset_all range_TableState a)
  moreover
  from ids_range_and_adopted [of 1 3 "[Update 9 ''red'' 100 101, ConfigureRange 4 5 102]"]
  have "ids (run_ops (TableState 1 3) [Update 9 ''red'' 100 101, ConfigureRange 4 5 102]) = {4, 5}"
    by (simp add: range_configure_range b)
  ultimately show ?thesis by blast
qed

subsection \<open>Key order\<close>

lemma keys_in_order_TableState: "keys_in_order (TableState a b)"
  by (simp add: keys_in_order_def TableState_def comp_def)

lemma keys_update_table_present:
  "table \<in> fst ` set (colors s) \<Longrightarrow> table \<in> fst ` set (red_started s) \<Longrightarrow>
   map fst (colors (fst (update_table s table color now now'))) = map fst (colors s) \<and>
   map fst (red_started (fst (update_table s table color now now'))) = map fst (red_started s)"
  by (simp add: update_table_def Let_def update_keys)

lemma keys_in_order_update_table:
  assumes "keys_in_order s" and "range_start s \<le> table" and "table \<le> range_end s"
  shows "keys_in_order (fst (update_table s table color now now'))"
proof -
  from assms have "table \<in> set (map fst (colors s))" and "table \<in> set (map fst (red_started s))"
    by (simp_all add: keys_in_order_def)
  then have "table \<in> fst ` set (colors s)" and "table \<in> fst ` set (red_started s)"
    by simp_all
  from keys_update_table_present [OF this] assms(1) show ?thesis
    by (simp add: keys_in_order_def range_update_table)
qed

lemma keys_fold_reset_present:
  "set ks \<subseteq> fst ` set (colors s) \<Longrightarrow> set ks \<subseteq> fst ` set (red_started s) \<Longrightarrow>
   map fst (colors (fold reset_table ks s)) = map fst (colors s) \<and>
   map fst (red_started (fold reset_table ks s)) = map fst (red_started s)"
proof (induction ks arbitrary: s)
  case Nil
  then show ?case by simp
next
  case (Cons k ks)
  let ?s = "reset_table k s"
  from Cons.prems have "k \<in> fst ` set (colors s)" and "k \<in> fst ` set (red_started s)"
    by simp_all
  then have keep: "map fst (colors ?s) = map fst (colors s)"
      "map fst (red_started ?s) = map fst (red_started s)"
    by (simp_all add: reset_table_def update_keys)
  have "fst ` set (colors ?s) = set (map fst (colors ?s))"
    and "fst ` set (red_started ?s) = set (map fst (red_started ?s))"
    by simp_all
  with keep have "fst ` set (colors ?s) = fst ` set (colors s)"
    and "fst ` set (red_started ?s) = fst ` set (red_started s)"
    by simp_all
  with Cons.prems have "set ks \<subseteq> fst ` set (colors ?s)" and "set ks \<subseteq> fst ` set (red_started ?s)"
    by simp_all
  from Cons.IH [OF this] keep show ?case by simp
qed

lemma keys_in_order_reset_all:
  assumes "keys_in_order s"
  shows "keys_in_order (fst (reset_all s now))"
proof -
  from assms have "map fst (colors s) = map fst (red_started s)"
    by (simp add: keys_in_order_def)
  then have "set (map fst (colors s)) = set (map fst (red_started s))"
    by simp
  then have "set (map fst (colors s)) \<subseteq> fst ` set (colors s)"
    and "set (map fst (colors s)) \<subseteq> fst ` set (red_started s)"
    by simp_all
  from keys_fold_reset_present [OF this] assms show ?thesis
    by (simp add: reset_all_def Let_def keys_in_order_def range_fold_reset)
qed

lemma keys_in_order_configure_range:
  "keys_in_order s \<Longrightarrow> keys_in_order (fst (configure_range s a b now))"
  by (simp add: keys_in_order_def configure_range_def Let_def comp_def)

lemma keys_in_order_run_ops:
  "keys_in_order s \<Longrightarrow> updates_in_range s xs \<Longrightarrow> keys_in_order (run_ops s xs)"
proof (induction xs arbitrary: s)
  case Nil
  then show ?case by simp
next
  case (Cons x xs)
  from Cons.prems have "keys_in_order (apply_op s x)"
    by (cases x)
       (simp_all add: keys_in_order_update_table keys_in_order_reset_all
                      keys_in_order_configure_range)
  with Cons show ?case by simp
qed

lemma keys_in_order_ascending:
  "keys_in_order s \<Longrightarrow> sorted_wrt (<) (map fst (red_started s))"
  by (simp add: keys_in_order_def strict_sorted_iff)

subsection \<open>The red durations\<close>

lemma durations_member:
  "((table, n) \<in> set (durations s now)) =
     (\<exists>t. (table, Some t) \<in> set (red_started s) \<and> t \<noteq> 0 \<and> n = int_of_float (now - t))"
  by (auto simp: durations_def split: option.splits if_splits)

lemma durations_keys_ascending:
  "sorted_wrt (<) (map fst d) \<Longrightarrow>
   sorted_wrt (<) (map fst (concat (map (\<lambda>(table_id, started).
        (case started of
           None \<Rightarrow> []
         | Some t \<Rightarrow> if t \<noteq> 0 then [(table_id, int_of_float (now - t))] else [])) d)))"
proof (induction d)
  case Nil
  then show ?case by simp
next
  case (Cons p d)
  obtain k v where p: "p = (k, v)" by (cases p)
  from Cons.prems have less: "\<forall>q \<in> set d. k < fst q" and rest: "sorted_wrt (<) (map fst d)"
    by (auto simp: p)
  have "\<forall>e \<in> set (concat (map (\<lambda>(table_id, started).
        (case started of
           None \<Rightarrow> []
         | Some t \<Rightarrow> if t \<noteq> 0 then [(table_id, int_of_float (now - t))] else [])) d)). k < fst e"
    using less by (fastforce split: option.splits if_splits)
  with Cons.IH [OF rest] show ?case
    by (auto simp: p split: option.splits)
qed

lemma insort_seconds_then_id:
  "sorted_wrt seconds_then_id ys \<Longrightarrow> \<forall>z \<in> set ys. fst x < fst z \<Longrightarrow>
   sorted_wrt seconds_then_id (insort_key (\<lambda>entry. - snd entry) x ys)"
proof (induction ys)
  case Nil
  then show ?case by simp
next
  case (Cons y ys)
  show ?case
  proof (cases "snd y \<le> snd x")
    case True
    have "seconds_then_id x z" if "z \<in> set (y # ys)" for z
    proof -
      from that Cons.prems(1) have "z = y \<or> seconds_then_id y z" by auto
      with True have "snd z \<le> snd x"
        by (auto simp: seconds_then_id_def)
      moreover from that Cons.prems(2) have "fst x < fst z" by blast
      ultimately show ?thesis
        by (auto simp: seconds_then_id_def)
    qed
    with True Cons.prems(1) show ?thesis by simp
  next
    case False
    then have "seconds_then_id y x"
      by (simp add: seconds_then_id_def)
    with False Cons show ?thesis
      by (auto simp: set_insort_key)
  qed
qed

lemma sort_seconds_then_id:
  "sorted_wrt (<) (map fst xs) \<Longrightarrow>
   sorted_wrt seconds_then_id (sort_key (\<lambda>entry. - snd entry) xs)"
proof (induction xs)
  case Nil
  then show ?case by simp
next
  case (Cons x xs)
  then show ?case
    by (auto intro!: insort_seconds_then_id)
qed

lemma sort_descending:
  "sorted_wrt (\<lambda>x y. snd y \<le> snd x) (sort_key (\<lambda>entry. - snd entry) (xs :: duration list))"
proof -
  have "sorted (map (\<lambda>entry. - snd entry) (sort_key (\<lambda>entry. - snd entry) xs))"
    by (rule sorted_sort_key)
  then show ?thesis
    by (simp add: sorted_map)
qed

text \<open>
  Claim C3, amended. For a limit that is not negative, \<open>_red_durations_locked\<close> returns
  the first \<open>limit\<close> entries of the elapsed seconds (clock reading minus start time,
  truncated) of the tables that have a start time, a start time of 0.0 being read as
  none, sorted descending by seconds; entries of equal seconds keep the order in which
  their tables entered the store, which is ascending id whenever the keys of the store
  are in ascending order (\<open>keys_in_order_run_ops\<close>: as long as every update was within
  the configured range).
\<close>

theorem red_durations_locked_order:
  assumes "0 \<le> limit"
  shows "red_durations_locked s now limit =
           take (nat limit) (sort_key (\<lambda>entry. - snd entry) (durations s now)) \<and>
         (\<forall>table n. ((table, n) \<in> set (sort_key (\<lambda>entry. - snd entry) (durations s now))) =
            (\<exists>t. (table, Some t) \<in> set (red_started s) \<and> t \<noteq> 0 \<and> n = int_of_float (now - t))) \<and>
         sorted_wrt (\<lambda>x y. snd y \<le> snd x) (red_durations_locked s now limit) \<and>
         (\<forall>n. filter (\<lambda>entry. snd entry = n) (sort_key (\<lambda>entry. - snd entry) (durations s now)) =
              filter (\<lambda>entry. snd entry = n) (durations s now)) \<and>
         (sorted_wrt (<) (map fst (red_started s)) \<longrightarrow>
            sorted_wrt seconds_then_id (red_durations_locked s now limit))"
proof (intro conjI allI impI)
  from assms show eq: "red_durations_locked s now limit =
      take (nat limit) (sort_key (\<lambda>entry. - snd entry) (durations s now))"
    by (simp add: red_durations_locked_def slice_to_def)
  show "sorted_wrt (\<lambda>x y. snd y \<le> snd x) (red_durations_locked s now limit)"
    unfolding eq by (rule sorted_wrt_take) (rule sort_descending)
  show "((table, n) \<in> set (sort_key (\<lambda>entry. - snd entry) (durations s now))) =
            (\<exists>t. (table, Some t) \<in> set (red_started s) \<and> t \<noteq> 0 \<and> n = int_of_float (now - t))"
    for table n
    by (simp add: durations_member)
  show "filter (\<lambda>entry. snd entry = n) (sort_key (\<lambda>entry. - snd entry) (durations s now)) =
        filter (\<lambda>entry. snd entry = n) (durations s now)" for n
    using sort_key_stable [of "\<lambda>entry. - snd entry" "- n" "durations s now"] by simp
  assume "sorted_wrt (<) (map fst (red_started s))"
  then have "sorted_wrt (<) (map fst (durations s now))"
    unfolding durations_def by (rule durations_keys_ascending)
  then have "sorted_wrt seconds_then_id (sort_key (\<lambda>entry. - snd entry) (durations s now))"
    by (rule sort_seconds_then_id)
  then show "sorted_wrt seconds_then_id (red_durations_locked s now limit)"
    unfolding eq by (rule sorted_wrt_take)
qed

lemma cx_state:
  "red_started (run_ops (TableState 2 3) [Update 3 ''red'' 100 101, Update 1 ''red'' 100 101]) =
     [(2, None), (3, Some 100), (1, Some 100)]"
  by (simp add: update_table_def TableState_def Let_def truthy_def dict_get_def upto.simps)

text \<open>
  The order of the specification fails once an id outside the range has been adopted
  after a larger id: tables 3 and 1 turn red in the same second, 1 being adopted last,
  and the result lists 3 before 1.
\<close>

theorem ties_by_id_counterexample:
  "\<not> sorted_wrt seconds_then_id
       (red_durations_locked
          (run_ops (TableState 2 3) [Update 3 ''red'' 100 101, Update 1 ''red'' 100 101]) 110 10)"
  unfolding red_durations_locked_def durations_def cx_state
  by (simp add: slice_to_def int_of_float_def seconds_then_id_def)

lemma w_state:
  "red_started (run_ops (TableState 1 3)
      [Update 3 ''red'' 100 101, Update 1 ''red'' 100 101, Update 2 ''red'' 95 96]) =
     [(1, Some 100), (2, Some 95), (3, Some 100)]"
  by (simp add: update_table_def TableState_def Let_def truthy_def dict_get_def upto.simps)

theorem red_durations_locked_order_witness:
  "(0::int) \<le> 2 \<and>
   sorted_wrt (<) (map fst (red_started (run_ops (TableState 1 3)
      [Update 3 ''red'' 100 101, Update 1 ''red'' 100 101, Update 2 ''red'' 95 96]))) \<and>
   red_durations_locked (run_ops (TableState 1 3)
      [Update 3 ''red'' 100 101, Update 1 ''red'' 100 101, Update 2 ''red'' 95 96]) 110 2 =
     [(2, 15), (1, 10)] \<and>
   sorted_wrt seconds_then_id (red_durations_locked (run_ops (TableState 1 3)
      [Update 3 ''red'' 100 101, Update 1 ''red'' 100 101, Update 2 ''red'' 95 96]) 110 2)"
proof -
  let ?s = "run_ops (TableState 1 3)
      [Update 3 ''red'' 100 101, Update 1 ''red'' 100 101, Update 2 ''red'' 95 96]"
  have l: "(0::int) \<le> 2" by simp
  have k: "sorted_wrt (<) (map fst (red_started ?s))"
    unfolding w_state by simp
  have d: "take (nat 2) (sort_key (\<lambda>entry. - snd entry) (durations ?s 110)) = [(2, 15), (1, 10)]"
    unfolding durations_def w_state by (simp add: int_of_float_def)
  from red_durations_locked_order [OF l, of ?s 110]
  have eq: "red_durations_locked ?s 110 2 =
              take (nat 2) (sort_key (\<lambda>entry. - snd entry) (durations ?s 110))"
    and imp: "sorted_wrt (<) (map fst (red_started ?s)) \<longrightarrow>
              sorted_wrt seconds_then_id (red_durations_locked ?s 110 2)"
    by blast+
  from eq d have "red_durations_locked ?s 110 2 = [(2, 15), (1, 10)]"
    by (rule trans)
  moreover from imp k have "sorted_wrt seconds_then_id (red_durations_locked ?s 110 2)"
    by blast
  ultimately have "red_durations_locked ?s 110 2 = [(2, 15), (1, 10)] \<and>
        sorted_wrt seconds_then_id (red_durations_locked ?s 110 2)"
    by blast
  with l k show ?thesis by blast
qed

section \<open>Properties of the websocket manager\<close>

lemma send_all_filter:
  "send_all send_ok cs stale received =
     (stale @ filter (\<lambda>c. \<not> send_ok c) cs, received @ filter send_ok cs)"
  by (induction cs arbitrary: stale received) simp_all

lemma fold_remove1_failed:
  "\<forall>z \<in> set zs. send_ok z \<Longrightarrow>
   fold remove1 (filter (\<lambda>c. \<not> send_ok c) xs) (zs @ xs) = zs @ filter send_ok xs"
proof (induction xs arbitrary: zs)
  case Nil
  then show ?case by simp
next
  case (Cons x xs)
  show ?case
  proof (cases "send_ok x")
    case True
    with Cons.prems have "\<forall>z \<in> set (zs @ [x]). send_ok z" by simp
    from Cons.IH [OF this] True show ?thesis by simp
  next
    case False
    with Cons.prems have "x \<notin> set zs" by blast
    then have "remove1 x (zs @ x # xs) = zs @ xs"
      by (simp add: remove1_append)
    with Cons.IH [OF Cons.prems] False show ?thesis by simp
  qed
qed

text \<open>
  Claim C7. \<open>broadcast\<close> sends to every connection: those whose send succeeds all
  receive the message, whatever fails before or after them, and exactly the connections
  whose send fails are removed from the list.
\<close>

theorem broadcast_isolation:
  "broadcast send_ok connections = (filter send_ok connections, filter send_ok connections)"
  using fold_remove1_failed [of "[]" send_ok connections]
  by (simp add: broadcast_def send_all_filter)

theorem broadcast_isolation_witness:
  "broadcast (\<lambda>c. c \<noteq> (2::nat)) [1, 2, 3] = ([1, 3], [1, 3])"
  using broadcast_isolation [of "\<lambda>c. c \<noteq> (2::nat)" "[1, 2, 3]"] by simp


section \<open>Properties of the serial receiver\<close>

lemma parse_message_RT:
  "hd (split CHR '','' raw) = ''RT'' \<Longrightarrow> parse_message raw = Inr None"
  by (auto simp: parse_message_def split: list.splits)

text \<open>
  Claim C5. A line whose first field is \<open>RT\<close> changes nothing and hands nothing to
  \<open>broadcast\<close>, whatever the rest of the line is; the read loop goes on to the next
  line with the receiver and the payloads it had.
\<close>

theorem read_line_RT:
  "hd (split CHR '','' (strip line)) = ''RT'' \<Longrightarrow>
   read_line r line now now' = Inr (r, None) \<and>
   read_loop r (Line line now now' # events) sent = read_loop r events sent"
  by (simp add: read_line_def Let_def parse_message_RT)

lemma py_int_error: "py_int s = Inl e \<Longrightarrow> \<exists>m. e = ValueError m"
  by (auto simp: py_int_def Let_def split: option.splits)

lemma parse_message_no_error: "parse_message raw \<noteq> Inl e"
  by (auto simp: parse_message_def split: list.splits sum.splits error.splits option.splits
           dest: py_int_error)

lemma COLOR_CODE_Some: "(\<exists>color. COLOR_CODE i = Some color) = (i \<in> {0, 1, 2})"
  by (auto simp: COLOR_CODE_def)



lemma read_line_no_error: "read_line r line now now' \<noteq> Inl e"
  by (auto simp: read_line_def Let_def parse_message_no_error
           split: sum.splits option.splits prod.splits)



theorem read_line_RT_witness:
  "hd (split CHR '','' (strip ''RT,1,2'')) = ''RT'' \<and>
   read_line \<lparr>state = TableState 1 3, loop = True, connection = None\<rparr> ''RT,1,2'' 100 101 =
     Inr (\<lparr>state = TableState 1 3, loop = True, connection = None\<rparr>, None)"
proof -
  have h: "hd (split CHR '','' (strip ''RT,1,2'')) = ''RT''"
    by code_simp
  from h read_line_RT [OF h] show ?thesis by blast
qed



text \<open>
  Claim C9. For a colour of \<open>COLOR_NAME_TO_ID\<close>, \<open>send_teacher_command\<close> without an
  open connection fails with \<open>RuntimeError\<close> and changes nothing; with an open
  connection it writes exactly the line \<open>T,<table>,<colour id>\<close> and a newline. The
  store is the same afterwards in either case.
\<close>

theorem send_teacher_command_link:
  assumes "COLOR_NAME_TO_ID color = Some color_id"
  shows "((connection r = None \<or> (\<exists>c. connection r = Some c \<and> \<not> is_open c)) \<longrightarrow>
            send_teacher_command r table color =
              (r, Inl (RuntimeError ''Serial link is not connected.''))) \<and>
         (\<forall>c. connection r = Some c \<and> is_open c \<longrightarrow>
            send_teacher_command r table color =
              (r\<lparr>connection := Some (c\<lparr>written := written c @
                    [''T,'' @ str_int table @ '','' @ str_int color_id @ [CHR 0x0A]]\<rparr>)\<rparr>,
               Inr ())) \<and>
         state (fst (send_teacher_command r table color)) = state r"
  using assms
  by (auto simp: send_teacher_command_def Let_def split: option.splits)

theorem send_teacher_command_link_witness:
  "COLOR_NAME_TO_ID ''red'' = Some 2 \<and>
   send_teacher_command \<lparr>state = TableState 1 3, loop = True, connection = None\<rparr> 12 ''red'' =
     (\<lparr>state = TableState 1 3, loop = True, connection = None\<rparr>,
      Inl (RuntimeError ''Serial link is not connected.'')) \<and>
   send_teacher_command
       \<lparr>state = TableState 1 3, loop = True,
        connection = Some \<lparr>is_open = False, written = []\<rparr>\<rparr> 12 ''red'' =
     (\<lparr>state = TableState 1 3, loop = True, connection = Some \<lparr>is_open = False, written = []\<rparr>\<rparr>,
      Inl (RuntimeError ''Serial link is not connected.'')) \<and>
   send_teacher_command
       \<lparr>state = TableState 1 3, loop = True,
        connection = Some \<lparr>is_open = True, written = []\<rparr>\<rparr> 12 ''red'' =
     (\<lparr>state = TableState 1 3, loop = True,
       connection = Some \<lparr>is_open = True, written = [''T,12,2'' @ [CHR 0x0A]]\<rparr>\<rparr>, Inr ())"
proof -
  have h: "COLOR_NAME_TO_ID ''red'' = Some 2"
    by (simp add: COLOR_NAME_TO_ID_def)
  have s12: "str_int 12 = ''12''" and s2: "str_int 2 = ''2''"
    by code_simp+
  from send_teacher_command_link [OF h, of "\<lparr>state = TableState 1 3, loop = True, connection = None\<rparr>" 12]
  have a: "send_teacher_command \<lparr>state = TableState 1 3, loop = True, connection = None\<rparr> 12 ''red'' =
     (\<lparr>state = TableState 1 3, loop = True, connection = None\<rparr>,
      Inl (RuntimeError ''Serial link is not connected.''))"
    by simp
  from send_teacher_command_link [OF h, of "\<lparr>state = TableState 1 3, loop = True,
        connection = Some \<lparr>is_open = False, written = []\<rparr>\<rparr>" 12]
  have b: "send_teacher_command
       \<lparr>state = TableState 1 3, loop = True,
        connection = Some \<lparr>is_open = False, written = []\<rparr>\<rparr> 12 ''red'' =
     (\<lparr>state = TableState 1 3, loop = True, connection = Some \<lparr>is_open = False, written = []\<rparr>\<rparr>,
      Inl (RuntimeError ''Serial link is not connected.''))"
    by simp
  from send_teacher_command_link [OF h, of "\<lparr>state = TableState 1 3, loop = True,
        connection = Some \<lparr>is_open = True, written = []\<rparr>\<rparr>" 12]
  have c: "send_teacher_command
       \<lparr>state = TableState 1 3, loop = True,
        connection = Some \<lparr>is_open = True, written = []\<rparr>\<rparr> 12 ''red'' =
     (\<lparr>state = TableState 1 3, loop = True,
       connection = Some \<lparr>is_open = True, written = [''T,12,2'' @ [CHR 0x0A]]\<rparr>\<rparr>, Inr ())"
    by (simp add: s12 s2)
  from h a b c show ?thesis by blast
qed

end
